theory Spec2Isabelle
  imports Complex_Main "HOL-Library.Word"
begin

unbundle bit_operations_syntax

section \<open>Bit-manipulation primitives of decoder.py\<close>

text \<open>
  Python integers are unbounded and their bitwise operators act on the infinite
  two's-complement representation, which is how \<open>AND\<close>, \<open>OR\<close>, \<open>NOT\<close>,
  \<open>push_bit\<close> (\<^verbatim>\<open><<\<close>) and \<open>drop_bit\<close> (\<^verbatim>\<open>>>\<close>) behave on \<^typ>\<open>int\<close>.
\<close>

definition lo_nibble :: "int \<Rightarrow> int" where
  "lo_nibble b = b AND 0x0F"

definition hi_nibble :: "int \<Rightarrow> int" where
  "hi_nibble b = (drop_bit 4 b) AND 0x0F"

definition signed12 :: "int \<Rightarrow> int" where
  "signed12 v = (- (v AND 0x800)) OR (v AND 0x7FF)"

section \<open>Values, errors and the sequential reading of a generator\<close>

text \<open>
  A \<^verbatim>\<open>Message\<close> carries the arbitration id (constructor argument \<^verbatim>\<open>sender_id\<close>,
  stored as \<^verbatim>\<open>self.id\<close>) and the payload, a bytes-like object (\<^verbatim>\<open>bytes\<close> or
  \<^verbatim>\<open>bytearray\<close>, whose items are integers from 0 to 255) of any length: the class
  checks nothing.
\<close>

record Message =
  sender_id :: int
  data :: "8 word list"

record Decoder =
  emit_unmapped :: bool

text \<open>
  The exceptions the body of \<^verbatim>\<open>decode\<close> can raise: \<^verbatim>\<open>IndexError\<close> from
  \<^verbatim>\<open>msg.data[i]\<close>, \<^verbatim>\<open>struct.error\<close> from \<^verbatim>\<open>struct.unpack\<close>, and
  \<^verbatim>\<open>AssertionError\<close> from \<^verbatim>\<open>assert\<close>.
\<close>

datatype error = IndexError | StructError | AssertionError

text \<open>
  A finite binary64 number \<open>Double m e\<close> stands for \<open>m * 2 ^ e\<close>.
\<close>

datatype double = Double int int

definition double_val :: "double \<Rightarrow> rat" where
  "double_val d = (case d of Double m e \<Rightarrow>
     if 0 \<le> e then of_int (m * 2 ^ nat e) else of_int m / of_int (2 ^ nat (- e)))"

datatype val = VInt int | VBool bool | VFloat double | VStr string

type_synonym signal = "int \<times> string \<times> val"

text \<open>\<^verbatim>\<open>msg.data[i]\<close> for a constant non-negative index: the byte as an integer.\<close>

definition getitem :: "8 word list \<Rightarrow> nat \<Rightarrow> error + int" where
  "getitem bs i = (if i < length bs then Inr (uint (bs ! i)) else Inl IndexError)"

text \<open>\<^verbatim>\<open>bs[i:j]\<close> and \<^verbatim>\<open>bs[i:]\<close> with constant non-negative bounds never raise.\<close>

definition slice :: "nat \<Rightarrow> nat \<Rightarrow> 'a list \<Rightarrow> 'a list" where
  "slice i j bs = take (j - i) (drop i bs)"

definition slice_from :: "nat \<Rightarrow> 'a list \<Rightarrow> 'a list" where
  "slice_from i bs = drop i bs"

text \<open>
  \<^verbatim>\<open>struct.unpack(">H", bs)[0]\<close>: the buffer must hold exactly two bytes, read big-endian.
\<close>

definition unpack_H :: "8 word list \<Rightarrow> error + int" where
  "unpack_H bs = (case bs of [hi, lo] \<Rightarrow> Inr (256 * uint hi + uint lo) | _ \<Rightarrow> Inl StructError)"

text \<open>Evaluating an expression with one or two subexpressions that may raise, left to right.\<close>

definition on_value :: "('a \<Rightarrow> 'b) \<Rightarrow> error + 'a \<Rightarrow> error + 'b" where
  "on_value f r = (case r of Inl e \<Rightarrow> Inl e | Inr a \<Rightarrow> Inr (f a))"

definition on_values :: "('a \<Rightarrow> 'b \<Rightarrow> 'c) \<Rightarrow> error + 'a \<Rightarrow> error + 'b \<Rightarrow> error + 'c" where
  "on_values f r s = (case r of Inl e \<Rightarrow> Inl e | Inr a \<Rightarrow>
     (case s of Inl e \<Rightarrow> Inl e | Inr b \<Rightarrow> Inr (f a b)))"

text \<open>A list display evaluates its elements in order; the first exception wins.\<close>

fun collect :: "(error + 'a) list \<Rightarrow> error + 'a list" where
  "collect [] = Inr []"
| "collect (Inl e # rs) = Inl e"
| "collect (Inr a # rs) = (case collect rs of Inl e \<Rightarrow> Inl e | Inr as \<Rightarrow> Inr (a # as))"

text \<open>\<^verbatim>\<open>sep.join(parts)\<close>.\<close>

fun join :: "string \<Rightarrow> string list \<Rightarrow> string" where
  "join sep [] = []"
| "join sep [p] = p"
| "join sep (p # q # ps) = p @ sep @ join sep (q # ps)"

text \<open>
  \<^verbatim>\<open>"{:02X}".format(n)\<close>: upper-case hexadecimal, zero-padded to a total width of two,
  the sign of a negative number counting towards the width.
\<close>

definition hex_digit :: "nat \<Rightarrow> char" where
  "hex_digit d = (''0123456789ABCDEF'' ! d)"

fun upper_hex :: "nat \<Rightarrow> string" where
  "upper_hex n = (if n < 16 then [hex_digit n] else upper_hex (n div 16) @ [hex_digit (n mod 16)])"

declare upper_hex.simps [simp del]

definition format_02X :: "int \<Rightarrow> string" where
  "format_02X n =
     (if n < 0
      then (let s = upper_hex (nat (- n)) in CHR ''-'' # replicate (1 - length s) CHR ''0'' @ s)
      else (let s = upper_hex (nat n) in replicate (2 - length s) CHR ''0'' @ s))"

text \<open>
  \<^verbatim>\<open>n / 10.0\<close> converts the integer to binary64 (exactly, below \<open>2 ^ 53\<close>) and divides
  in binary64: IEEE 754 gives the exact quotient rounded to the nearest representable
  number, ties to the even significand. \<open>float_div p q\<close> is that rounding for integers
  \<open>0 \<le> p\<close> and \<open>0 < q\<close> whose quotient is in the normal range; \<open>bit_length\<close> is
  Python's \<^verbatim>\<open>int.bit_length\<close>.
\<close>

fun bit_length :: "nat \<Rightarrow> nat" where
  "bit_length n = (if n = 0 then 0 else Suc (bit_length (n div 2)))"

declare bit_length.simps [simp del]

definition round_half_even :: "int \<Rightarrow> int \<Rightarrow> int" where
  "round_half_even p q =
     (let f = p div q; r = p mod q
      in if 2 * r < q then f else if q < 2 * r then f + 1 else if even f then f else f + 1)"

definition float_div :: "int \<Rightarrow> int \<Rightarrow> double" where
  "float_div p q =
     (if p = 0 then Double 0 0
      else
        let k = int (bit_length (nat p)) - int (bit_length (nat q));
            e = (if p * 2 ^ nat (- k) < q * 2 ^ nat k then k - 1 else k);
            m = round_half_even (p * 2 ^ nat (52 - e)) (q * 2 ^ nat (e - 52))
        in if m = 2 ^ 53 then Double (2 ^ 52) (e - 51) else Double m (e - 52))"

text \<open>
  The body of a generator function runs only when a value is requested, up to the next
  \<^verbatim>\<open>yield\<close>. Its straight-line body is a list of statements; the expression of each
  has its result (a value or the exception it raises) as a function of the frame.
\<close>

datatype stmt = Yield "error + signal" | Assert "error + bool"

datatype outcome = Yielded signal | StopIteration | Raised error

text \<open>
  \<open>gen_next\<close> is \<^verbatim>\<open>next(g)\<close>: it resumes the body and returns what happened together
  with the rest of the body. A generator that raised is finished.
\<close>

fun gen_next :: "stmt list \<Rightarrow> outcome \<times> stmt list" where
  "gen_next [] = (StopIteration, [])"
| "gen_next (Yield (Inr s) # rest) = (Yielded s, rest)"
| "gen_next (Yield (Inl e) # rest) = (Raised e, [])"
| "gen_next (Assert (Inr True) # rest) = gen_next rest"
| "gen_next (Assert (Inr False) # rest) = (Raised AssertionError, [])"
| "gen_next (Assert (Inl e) # rest) = (Raised e, [])"

text \<open>
  \<open>run\<close> is what a consumer iterating to the end observes (\<^verbatim>\<open>for s in g\<close>,
  \<^verbatim>\<open>list(g)\<close>): the signals yielded, and the exception that ended the iteration, if any.
\<close>

fun run :: "stmt list \<Rightarrow> signal list \<times> error option" where
  "run [] = ([], None)"
| "run (Yield (Inr s) # rest) = (s # fst (run rest), snd (run rest))"
| "run (Yield (Inl e) # rest) = ([], Some e)"
| "run (Assert (Inr True) # rest) = run rest"
| "run (Assert (Inr False) # rest) = ([], Some AssertionError)"
| "run (Assert (Inl e) # rest) = ([], Some e)"

definition yield :: "int \<Rightarrow> string \<Rightarrow> error + val \<Rightarrow> stmt" where
  "yield i k r = Yield (on_value (\<lambda>v. (i, k, v)) r)"

definition hex_cell :: "error + int \<Rightarrow> error + string" where
  "hex_cell r = on_value format_02X r"

definition unmapped :: "int \<Rightarrow> (error + string) list \<Rightarrow> stmt" where
  "unmapped i cells = yield i ''unmapped'' (on_value (\<lambda>ps. VStr (join '' '' ps)) (collect cells))"

section \<open>Decoder.decode\<close>

text \<open>
  Calling \<^verbatim>\<open>decode\<close> only creates the generator: the result is the suspended body
  for the frame, selected by the \<^verbatim>\<open>if\<close>/\<^verbatim>\<open>elif\<close> chain on \<^verbatim>\<open>msg.id\<close>.
\<close>

definition decode_0x120 :: "Decoder \<Rightarrow> Message \<Rightarrow> stmt list" where
  "decode_0x120 self msg =
     [yield (sender_id msg) ''rpm'' (on_value VInt (unpack_H (slice 0 2 (data msg)))),
      yield (sender_id msg) ''throttle'' (on_value VInt (getitem (data msg) 2)),
      yield (sender_id msg) ''kill_switch''
        (on_value (\<lambda>b. VInt (drop_bit 4 (b AND 0b00010000))) (getitem (data msg) 3)),
      yield (sender_id msg) ''throttle_map''
        (on_value (\<lambda>b. VInt (b AND 0b00000001)) (getitem (data msg) 4))]
     @ (if emit_unmapped self then
          [unmapped (sender_id msg)
            [Inr ''__'',
             Inr ''__'',
             Inr ''__'',
             hex_cell (on_value (\<lambda>b. b AND (NOT 0b00010000 AND 0xFF)) (getitem (data msg) 3)),
             hex_cell (on_value (\<lambda>b. b AND (NOT 0b00000001 AND 0xFF)) (getitem (data msg) 4)),
             hex_cell (getitem (data msg) 5),
             hex_cell (getitem (data msg) 6),
             Inr ''__'']]
        else [])"

definition decode_0x129 :: "Decoder \<Rightarrow> Message \<Rightarrow> stmt list" where
  "decode_0x129 self msg =
     [yield (sender_id msg) ''gear'' (on_value (\<lambda>b. VInt (hi_nibble b)) (getitem (data msg) 0)),
      yield (sender_id msg) ''clutch_in''
        (on_value (\<lambda>b. VBool (drop_bit 3 (b AND 0b00001000) = 1)) (getitem (data msg) 0))]
     @ (if emit_unmapped self then
          [unmapped (sender_id msg)
            [Inr ''__'',
             hex_cell (getitem (data msg) 1),
             hex_cell (getitem (data msg) 2),
             hex_cell (getitem (data msg) 3),
             hex_cell (getitem (data msg) 4),
             hex_cell (getitem (data msg) 5),
             hex_cell (getitem (data msg) 6),
             Inr ''__'']]
        else [])"

definition decode_0x12A :: "Decoder \<Rightarrow> Message \<Rightarrow> stmt list" where
  "decode_0x12A self msg =
     [yield (sender_id msg) ''requested_throttle_map''
        (on_value (\<lambda>b. VInt (drop_bit 6 (b AND 0b01000000))) (getitem (data msg) 1))]
     @ (if emit_unmapped self then
          [unmapped (sender_id msg)
            [hex_cell (getitem (data msg) 0),
             hex_cell (on_value (\<lambda>b. b AND (NOT 0b01000000 AND 0xFF)) (getitem (data msg) 1)),
             hex_cell (getitem (data msg) 2),
             hex_cell (getitem (data msg) 3),
             hex_cell (getitem (data msg) 4),
             hex_cell (getitem (data msg) 5),
             hex_cell (getitem (data msg) 6),
             hex_cell (getitem (data msg) 7)]]
        else [])"

definition decode_0x12B :: "Decoder \<Rightarrow> Message \<Rightarrow> stmt list" where
  "decode_0x12B self msg =
     [yield (sender_id msg) ''tilt?''
        (on_values (\<lambda>a b. VInt (signed12 (push_bit 4 a OR hi_nibble b)))
           (getitem (data msg) 5) (getitem (data msg) 6)),
      yield (sender_id msg) ''lean?''
        (on_values (\<lambda>a b. VInt (signed12 (push_bit 8 (lo_nibble a) OR b)))
           (getitem (data msg) 6) (getitem (data msg) 7))]
     @ (if emit_unmapped self then
          [unmapped (sender_id msg)
            [Inr ''__'',
             Inr ''__'',
             hex_cell (getitem (data msg) 2),
             hex_cell (getitem (data msg) 3),
             Inr ''__'',
             Inr ''__'',
             Inr ''__'',
             Inr ''__'']]
        else [])"

definition decode_0x540 :: "Decoder \<Rightarrow> Message \<Rightarrow> stmt list" where
  "decode_0x540 self msg =
     [Assert (on_value (\<lambda>b. b = 0x02) (getitem (data msg) 0)),
      yield (sender_id msg) ''rpm'' (on_value VInt (unpack_H (slice 1 3 (data msg)))),
      yield (sender_id msg) ''kickstand_up''
        (on_value (\<lambda>b. VBool (b AND 0b00000001 = 1)) (getitem (data msg) 4)),
      yield (sender_id msg) ''kickstand_err''
        (on_value (\<lambda>b. VBool (drop_bit 7 (b AND 0b10000000) = 1)) (getitem (data msg) 4)),
      Assert (on_value (\<lambda>b. b = 0x00) (getitem (data msg) 5)),
      yield (sender_id msg) ''coolant_temp''
        (on_value (\<lambda>n. VFloat (float_div n 10)) (unpack_H (slice_from 6 (data msg))))]
     @ (if emit_unmapped self then
          [unmapped (sender_id msg)
            [Inr ''__'',
             Inr ''__'',
             Inr ''__'',
             hex_cell (getitem (data msg) 3),
             hex_cell (on_value (\<lambda>b. b AND 0b01111110) (getitem (data msg) 4)),
             Inr ''__'',
             Inr ''__'',
             Inr ''__'']]
        else [])"

definition decode :: "Decoder \<Rightarrow> Message \<Rightarrow> stmt list" where
  "decode self msg =
     (if sender_id msg = 0x120 then decode_0x120 self msg
      else if sender_id msg = 0x129 then decode_0x129 self msg
      else if sender_id msg = 0x12A then decode_0x12A self msg
      else if sender_id msg = 0x12B then decode_0x12B self msg
      else if sender_id msg = 0x540 then decode_0x540 self msg
      else [])"

text \<open>Observing a run: the value of the first signal with a given name, and successive \<^verbatim>\<open>next\<close> calls.\<close>

fun signal_named :: "string \<Rightarrow> signal list \<Rightarrow> val option" where
  "signal_named k [] = None"
| "signal_named k ((i, k', v) # ss) = (if k' = k then Some v else signal_named k ss)"

fun nexts :: "nat \<Rightarrow> stmt list \<Rightarrow> outcome list" where
  "nexts 0 g = []"
| "nexts (Suc n) g = fst (gen_next g) # nexts n (snd (gen_next g))"

section \<open>Vocabulary and payload lengths\<close>

text \<open>
  The signal names as the specification lists them, and the names that occur as string
  literals in the \<^verbatim>\<open>yield\<close> statements of \<^verbatim>\<open>decode\<close>.
\<close>

definition spec_vocabulary :: "string list" where
  "spec_vocabulary =
     [''rpm'', ''throttle'', ''kill_switch'', ''gear'', ''clutch_in'', ''tilt'', ''lean'',
      ''coolant_temp'', ''kickstand_up'', ''kickstand_err'', ''requested_throttle_map'',
      ''throttle_map'', ''unmapped'']"

definition emitted_vocabulary :: "string list" where
  "emitted_vocabulary =
     [''rpm'', ''throttle'', ''kill_switch'', ''gear'', ''clutch_in'', ''tilt?'', ''lean?'',
      ''coolant_temp'', ''kickstand_up'', ''kickstand_err'', ''requested_throttle_map'',
      ''throttle_map'', ''unmapped'']"

text \<open>
  The number of leading payload bytes the body for an identifier touches (one more than
  the highest index it reads), with and without the diagnostic signal. The 0x540 body
  unpacks \<^verbatim>\<open>msg.data[6:]\<close>, which must be exactly bytes 6 and 7.
\<close>

definition bytes_read :: "bool \<Rightarrow> int \<Rightarrow> nat" where
  "bytes_read emit i =
     (if i = 0x120 then (if emit then 7 else 5)
      else if i = 0x129 then (if emit then 7 else 1)
      else if i = 0x12A then (if emit then 8 else 2)
      else if i = 0x12B then 8
      else if i = 0x540 then 8
      else 0)"

section \<open>The unmapped diagnostic as a table\<close>

text \<open>
  A diagnostic string is described by one mask per payload byte, the bits that are left
  out: a byte whose mask is 0xFF is shown as the placeholder, any other byte as the hex
  of the byte with the masked bits cleared; the cells are joined by single spaces in
  byte order.
\<close>

definition render_cell :: "int \<Rightarrow> 8 word \<Rightarrow> string" where
  "render_cell used b =
     (if used = 0xFF then ''__'' else format_02X (uint b AND (NOT used AND 0xFF)))"

definition render_unmapped :: "int list \<Rightarrow> 8 word list \<Rightarrow> string" where
  "render_unmapped used bs = join '' '' (map2 render_cell used bs)"

text \<open>
  \<open>named_bits\<close> follows the specification's rule: per identifier, the bits of each byte
  that a named field of the layout consumes (0x120: bytes 0-1 rpm, byte 2 throttle, bit 4
  of byte 3, bit 0 of byte 4; 0x129: bits 3-7 of byte 0; 0x12A: bit 6 of byte 1; 0x12B:
  bytes 5-7; 0x540: bytes 1-2, bits 0 and 7 of byte 4, bytes 6-7).
\<close>

definition named_bits :: "int \<Rightarrow> int list" where
  "named_bits i =
     (if i = 0x120 then [0xFF, 0xFF, 0xFF, 0x10, 0x01, 0x00, 0x00, 0x00]
      else if i = 0x129 then [0xF8, 0x00, 0x00, 0x00, 0x00, 0x00, 0x00, 0x00]
      else if i = 0x12A then [0x00, 0x40, 0x00, 0x00, 0x00, 0x00, 0x00, 0x00]
      else if i = 0x12B then [0x00, 0x00, 0x00, 0x00, 0x00, 0xFF, 0xFF, 0xFF]
      else if i = 0x540 then [0x00, 0xFF, 0xFF, 0x00, 0x81, 0x00, 0xFF, 0xFF]
      else [])"

text \<open>
  \<open>hidden_bits\<close> tabulates the list literals of the five \<^verbatim>\<open>" ".join([...])\<close>
  expressions of \<^verbatim>\<open>decode\<close>: 0xFF where the literal is \<^verbatim>\<open>"__"\<close>, otherwise the
  bits the mask of the cell clears.
\<close>

definition hidden_bits :: "int \<Rightarrow> int list" where
  "hidden_bits i =
     (if i = 0x120 then [0xFF, 0xFF, 0xFF, 0x10, 0x01, 0x00, 0x00, 0xFF]
      else if i = 0x129 then [0xFF, 0x00, 0x00, 0x00, 0x00, 0x00, 0x00, 0xFF]
      else if i = 0x12A then [0x00, 0x40, 0x00, 0x00, 0x00, 0x00, 0x00, 0x00]
      else if i = 0x12B then [0xFF, 0xFF, 0x00, 0x00, 0xFF, 0xFF, 0xFF, 0xFF]
      else if i = 0x540 then [0xFF, 0xFF, 0xFF, 0x00, 0x81, 0xFF, 0xFF, 0xFF]
      else [])"

section \<open>Properties of the primitives\<close>

lemma and_7FF_eq_mod: "(v::int) AND 0x7FF = v mod 2048"
proof -
  have "(0x7FF::int) = mask 11"
    by (simp add: mask_eq_exp_minus_1)
  then show ?thesis
    by (simp only: take_bit_eq_mask [symmetric] take_bit_eq_mod) simp
qed

lemma and_single_bit_int: "(v::int) AND 2 ^ n = (if bit v n then 2 ^ n else 0)"
  by (rule bit_eqI) (auto simp add: bit_and_iff bit_exp_iff)

lemma and_800_eq: "(v::int) AND 0x800 = (if bit v 11 then 2048 else 0)"
  using and_single_bit_int [of v 11] by simp

lemma bit_11_iff:
  assumes "0 \<le> v" "v \<le> 4095"
  shows "bit (v::int) 11 \<longleftrightarrow> 2048 \<le> v"
proof (cases "2048 \<le> v")
  case True
  have "v div 2048 = (v - 2048) div 2048 + 1"
    using True div_pos_geq [of 2048 v] by linarith
  moreover have "(v - 2048) div 2048 = 0"
    using True assms by (intro div_pos_pos_trivial) simp_all
  ultimately have "v div 2048 = 1"
    by simp
  then show ?thesis
    using True by (simp add: bit_iff_odd)
next
  case False
  then have "v div 2048 = 0"
    using assms by (intro div_pos_pos_trivial) simp_all
  then show ?thesis
    using False by (simp add: bit_iff_odd)
qed

lemma minus_2048_or:
  assumes "0 \<le> x" "x < 2048"
  shows "(- 2048) OR (x::int) = x - 2048"
proof -
  have m: "(- 2048 :: int) = NOT (mask 11)"
    by (simp add: mask_eq_exp_minus_1 not_int_def)
  have x: "x = take_bit 11 x"
    using assms by (simp add: take_bit_int_eq_self)
  have "NOT (mask 11) AND take_bit 11 x = (0::int)"
    by (rule bit_eqI) (simp add: bit_and_iff bit_not_iff bit_mask_iff bit_take_bit_iff)
  then have "(- 2048) AND x = 0"
    unfolding m using x by simp
  then have "(- 2048) + x = (- 2048) OR x"
    by (rule disjunctive_add_eq_or)
  then show ?thesis
    by simp
qed

lemma mod_2048_upper_half:
  assumes "2048 \<le> v" "v \<le> 4095"
  shows "(v::int) mod 2048 = v - 2048"
proof -
  have "v mod 2048 = (v - 2048) mod 2048"
    using assms mod_pos_geq [of 2048 v] by linarith
  also have "\<dots> = v - 2048"
    using assms by (intro mod_pos_pos_trivial) simp_all
  finally show ?thesis .
qed

lemma signed12_cases:
  assumes "0 \<le> v" "v \<le> 4095"
  shows "signed12 v = (if 2048 \<le> v then v - 4096 else v)"
proof (cases "2048 \<le> v")
  case True
  then have b: "bit v 11"
    using assms bit_11_iff by simp
  have l: "v mod 2048 = v - 2048"
    using True assms by (simp add: mod_2048_upper_half)
  have "(- 2048) OR (v - 2048) = (v - 2048) - 2048"
    using True assms by (intro minus_2048_or) simp_all
  with True b l show ?thesis
    by (simp add: signed12_def and_7FF_eq_mod and_800_eq)
next
  case False
  then have "\<not> bit v 11"
    using assms bit_11_iff by simp
  with False assms show ?thesis
    by (simp add: signed12_def and_7FF_eq_mod and_800_eq)
qed

text \<open>
  C4: for every 12-bit unsigned \<open>v\<close>, \<open>signed12 v\<close> is \<open>v\<close> when bit 11 is clear and
  \<open>v - 4096\<close> when it is set; the four boundary inputs 0x000, 0x001, 0x800, 0xFFF give
  0, 1, -2048, -1; the result lies in [-2048, 2047] and is congruent to \<open>v\<close> modulo 4096.
\<close>

theorem signed12_spec:
  assumes "0 \<le> v" "v \<le> 4095"
  shows "signed12 v = (if bit v 11 then v - 4096 else v)
     \<and> - 2048 \<le> signed12 v \<and> signed12 v \<le> 2047
     \<and> signed12 v mod 4096 = v mod 4096
     \<and> signed12 0x000 = 0 \<and> signed12 0x001 = 1
     \<and> signed12 0x800 = - 2048 \<and> signed12 0xFFF = - 1"
proof -
  have b: "bit v 11 \<longleftrightarrow> 2048 \<le> v"
    using assms by (rule bit_11_iff)
  have e: "signed12 v = (if 2048 \<le> v then v - 4096 else v)"
    using assms by (rule signed12_cases)
  have "- 2048 \<le> signed12 v"
    using assms unfolding e by simp
  moreover have "signed12 v \<le> 2047"
    using assms unfolding e by simp
  moreover have "signed12 v mod 4096 = v mod 4096"
    unfolding e by simp
  moreover have "signed12 0x000 = 0" "signed12 0x001 = 1"
    "signed12 0x800 = - 2048" "signed12 0xFFF = - 1"
    by (simp_all add: signed12_def)
  ultimately show ?thesis
    using e b by simp
qed

theorem signed12_spec_witness:
  "(0::int) \<le> 0xABC \<and> (0xABC::int) \<le> 4095 \<and> bit (0xABC::int) 11
    \<and> signed12 0xABC = - 1348 \<and> signed12 0x800 = - 2048"
proof -
  have h: "(0::int) \<le> 0xABC" "(0xABC::int) \<le> 4095"
    by simp_all
  have b: "bit (0xABC::int) 11"
    by (simp add: bit_iff_odd)
  show ?thesis
    using signed12_spec [OF h] b by simp
qed

section \<open>Running the body of decode\<close>

lemma on_value_simps [simp]:
  "on_value f (Inr a) = Inr (f a)" "on_value f (Inl e) = Inl e"
  by (simp_all add: on_value_def)

lemma on_values_simps [simp]:
  "on_values f (Inr a) (Inr b) = Inr (f a b)" "on_values f (Inl e) s = Inl e"
  "on_values f (Inr a) (Inl e) = Inl e"
  by (simp_all add: on_values_def)

lemma run_yield [simp]:
  "run (yield i k (Inr v) # rest) = ((i, k, v) # fst (run rest), snd (run rest))"
  "run (yield i k (Inl e) # rest) = ([], Some e)"
  by (simp_all add: yield_def)

lemma run_by_gen_next:
  "run g =
     (case gen_next g of
        (Yielded s, g') \<Rightarrow> (s # fst (run g'), snd (run g'))
      | (StopIteration, g') \<Rightarrow> ([], None)
      | (Raised e, g') \<Rightarrow> ([], Some e))"
  by (induction g rule: run.induct) simp_all

lemma unpack_H_length:
  "unpack_H bs = (if length bs = 2 then Inr (256 * uint (bs ! 0) + uint (bs ! 1)) else Inl StructError)"
proof (cases bs)
  case Nil
  then show ?thesis by (simp add: unpack_H_def)
next
  case (Cons a as)
  note outer = this
  show ?thesis
  proof (cases as)
    case Nil
    with outer show ?thesis by (simp add: unpack_H_def)
  next
    case (Cons b cs)
    with outer show ?thesis by (cases cs) (simp_all add: unpack_H_def)
  qed
qed

lemma unpack_H_slice_0_2:
  "unpack_H (slice 0 2 bs) =
     (if 2 \<le> length bs then Inr (256 * uint (bs ! 0) + uint (bs ! 1)) else Inl StructError)"
  by (auto simp add: unpack_H_length slice_def min_def)

lemma unpack_H_slice_1_3:
  "unpack_H (slice 1 3 bs) =
     (if 3 \<le> length bs then Inr (256 * uint (bs ! 1) + uint (bs ! 2)) else Inl StructError)"
  by (auto simp add: unpack_H_length slice_def min_def numeral_2_eq_2)

lemma unpack_H_slice_from_6:
  "unpack_H (slice_from 6 bs) =
     (if length bs = 8 then Inr (256 * uint (bs ! 6) + uint (bs ! 7)) else Inl StructError)"
  by (auto simp add: unpack_H_length slice_from_def)

lemma getitem_simps [simp]:
  "i < length bs \<Longrightarrow> getitem bs i = Inr (uint (bs ! i))"
  "length bs \<le> i \<Longrightarrow> getitem bs i = Inl IndexError"
  by (simp_all add: getitem_def)

lemma kill_bit: "drop_bit 4 (uint (b::8 word) AND 0b00010000) = (if bit b 4 then 1 else 0)"
  using and_single_bit_int [of "uint b" 4] by (simp add: bit_uint_iff del: drop_bit_and)

lemma map_bit: "uint (b::8 word) AND 0b00000001 = (if bit b 0 then 1 else 0)"
  using and_single_bit_int [of "uint b" 0] by (simp add: bit_uint_iff)

lemma decode_0x120_signals:
  assumes "5 \<le> length (data msg)"
  shows "take 4 (fst (run (decode_0x120 self msg))) =
    [(sender_id msg, ''rpm'', VInt (256 * uint (data msg ! 0) + uint (data msg ! 1))),
     (sender_id msg, ''throttle'', VInt (uint (data msg ! 2))),
     (sender_id msg, ''kill_switch'', VInt (if bit (data msg ! 3) 4 then 1 else 0)),
     (sender_id msg, ''throttle_map'', VInt (if bit (data msg ! 4) 0 then 1 else 0))]"
  using assms 
  by (simp add: decode_0x120_def unpack_H_slice_0_2 kill_bit map_bit del: drop_bit_and)


lemma hex_cell_simps [simp]:
  "hex_cell (Inr n) = Inr (format_02X n)" "hex_cell (Inl e) = Inl e"
  by (simp_all add: hex_cell_def)

lemma run_unmapped:
  "run (unmapped i cells # rest) =
     (case collect cells of
        Inl e \<Rightarrow> ([], Some e)
      | Inr ps \<Rightarrow> ((i, ''unmapped'', VStr (join '' '' ps)) # fst (run rest), snd (run rest)))"
  by (cases "collect cells") (simp_all add: unmapped_def)

lemma run_Assert [simp]:
  "run (Assert (Inr b) # rest) = (if b then run rest else ([], Some AssertionError))"
  by (cases b) simp_all

lemma decode_0x120_ok:
  assumes "7 \<le> length (data msg)"
  shows "snd (run (decode_0x120 self msg)) = None"
  using assms
  by (simp add: decode_0x120_def unpack_H_slice_0_2 run_unmapped del: drop_bit_and)

section \<open>Identifier 0x120\<close>

text \<open>
  C5: for every 8-byte payload, a frame with identifier 0x120 decodes without error and
  its first four signals are \<open>rpm\<close>, the big-endian unsigned 16-bit value of bytes 0-1,
  \<open>throttle\<close>, byte 2 as an unsigned value, \<open>kill_switch\<close>, bit 4 of byte 3, and
  \<open>throttle_map\<close>, bit 0 of byte 4, the last two as 0 or 1; bytes 0x1A, 0x2B give
  rpm 6699.
\<close>

theorem decode_0x120_fields:
  assumes "sender_id msg = 0x120" and "length (data msg) = 8"
  shows "take 4 (fst (run (decode self msg))) =
    [(0x120, ''rpm'', VInt (256 * uint (data msg ! 0) + uint (data msg ! 1))),
     (0x120, ''throttle'', VInt (uint (data msg ! 2))),
     (0x120, ''kill_switch'', VInt (if bit (data msg ! 3) 4 then 1 else 0)),
     (0x120, ''throttle_map'', VInt (if bit (data msg ! 4) 0 then 1 else 0))]
   \<and> snd (run (decode self msg)) = None"
  using assms decode_0x120_signals [of msg self] decode_0x120_ok [of msg self]
  by (simp add: decode_def)

theorem decode_0x120_fields_witness:
  "take 4 (fst (run (decode \<lparr>emit_unmapped = False\<rparr>
      \<lparr>sender_id = 0x120, data = [0x1A, 0x2B, 0x7F, 0x10, 0x01, 0, 0, 0]\<rparr>))) =
    [(0x120, ''rpm'', VInt 6699), (0x120, ''throttle'', VInt 127),
     (0x120, ''kill_switch'', VInt 1), (0x120, ''throttle_map'', VInt 1)]"
  using decode_0x120_fields [of "\<lparr>sender_id = 0x120, data = [0x1A, 0x2B, 0x7F, 0x10, 0x01, 0, 0, 0]\<rparr>"
      "\<lparr>emit_unmapped = False\<rparr>"]
  by (simp add: bit_iff_odd)

section \<open>Unknown identifiers\<close>

text \<open>
  C8: for a frame whose identifier is none of 0x120, 0x129, 0x12A, 0x12B, 0x540, and any
  payload, decode produces the empty sequence and raises nothing, whatever
  \<open>emit_unmapped\<close> is: the first request already meets the end of the sequence.
\<close>

theorem unknown_identifier_empty:
  assumes "sender_id msg \<notin> {0x120, 0x129, 0x12A, 0x12B, 0x540}"
  shows "run (decode self msg) = ([], None) \<and> gen_next (decode self msg) = (StopIteration, [])"
  using assms by (simp add: decode_def)

theorem unknown_identifier_empty_witness:
  "run (decode \<lparr>emit_unmapped = True\<rparr> \<lparr>sender_id = 0x200, data = [1, 2, 3]\<rparr>) = ([], None)
   \<and> run (decode \<lparr>emit_unmapped = False\<rparr> \<lparr>sender_id = 0x200, data = []\<rparr>) = ([], None)"
  using unknown_identifier_empty [of "\<lparr>sender_id = 0x200, data = [1, 2, 3]\<rparr>" "\<lparr>emit_unmapped = True\<rparr>"]
    unknown_identifier_empty [of "\<lparr>sender_id = 0x200, data = []\<rparr>" "\<lparr>emit_unmapped = False\<rparr>"]
  by simp

section \<open>Single-bit fields and named signals\<close>

lemma single_bit_value:
  "drop_bit n (uint (b::8 word) AND 2 ^ n) = (if bit b n then 1 else 0)"
proof -
  have "drop_bit n ((2::int) ^ n) = 1"
    by (simp add: drop_bit_eq_div)
  then show ?thesis
    using and_single_bit_int [of "uint b" n]
    by (auto simp add: bit_uint_iff simp del: drop_bit_and dest: bit_imp_le_length)
qed

lemma kickstand_err_bit:
  "drop_bit 7 (uint (b::8 word) AND 0b10000000) = (if bit b 7 then 1 else 0)"
  using single_bit_value [of 7 b] by (simp del: drop_bit_and)

lemma uint_eq_2_iff: "uint (b::8 word) = 2 \<longleftrightarrow> b = 2"
  using word_uint_eq_iff [of b 2] by simp

lemma uint_eq_0_iff: "uint (b::8 word) = 0 \<longleftrightarrow> b = 0"
  using word_uint_eq_iff [of b 0] by simp

lemma signal_named_take:
  "signal_named k (take n ss) = Some v \<Longrightarrow> signal_named k ss = Some v"
proof (induction ss arbitrary: n)
  case Nil
  then show ?case by simp
next
  case (Cons s ss)
  obtain i k' w where s: "s = (i, k', w)"
    by (cases s)
  show ?case
  proof (cases n)
    case 0
    with Cons.prems show ?thesis by simp
  next
    case (Suc m)
    with Cons s show ?thesis by (auto split: if_splits)
  qed
qed

lemma decode_0x120_flags:
  assumes "length d = 8"
  shows "signal_named ''kill_switch'' (fst (run (decode self \<lparr>sender_id = 0x120, data = d\<rparr>)))
      = Some (VInt (if bit (d ! 3) 4 then 1 else 0))"
    and "signal_named ''throttle_map'' (fst (run (decode self \<lparr>sender_id = 0x120, data = d\<rparr>)))
      = Some (VInt (if bit (d ! 4) 0 then 1 else 0))"
proof -
  let ?msg = "\<lparr>sender_id = 0x120, data = d\<rparr>"
  have t: "take 4 (fst (run (decode self ?msg))) =
    [(0x120, ''rpm'', VInt (256 * uint (d ! 0) + uint (d ! 1))),
     (0x120, ''throttle'', VInt (uint (d ! 2))),
     (0x120, ''kill_switch'', VInt (if bit (d ! 3) 4 then 1 else 0)),
     (0x120, ''throttle_map'', VInt (if bit (d ! 4) 0 then 1 else 0))]"
    using assms decode_0x120_signals [of ?msg self] by (simp add: decode_def)
  show "signal_named ''kill_switch'' (fst (run (decode self ?msg)))
      = Some (VInt (if bit (d ! 3) 4 then 1 else 0))"
    by (rule signal_named_take [of _ 4]) (simp only: t, simp)
  show "signal_named ''throttle_map'' (fst (run (decode self ?msg)))
      = Some (VInt (if bit (d ! 4) 0 then 1 else 0))"
    by (rule signal_named_take [of _ 4]) (simp only: t, simp)
qed

section \<open>Mask independence of the 0x120 flags\<close>

text \<open>
  C7: two 8-byte payloads for identifier 0x120 that agree on bit 4 of byte 3 decode to the
  same \<open>kill_switch\<close>, and two that agree on bit 0 of byte 4 decode to the same
  \<open>throttle_map\<close>, whatever the other bits are and whatever \<open>emit_unmapped\<close> is; both
  values are 0 or 1.
\<close>

theorem flags_mask_independent:
  assumes "length d1 = 8" and "length d2 = 8"
  shows "(bit (d1 ! 3) 4 = bit (d2 ! 3) 4 \<longrightarrow>
            signal_named ''kill_switch'' (fst (run (decode s1 \<lparr>sender_id = 0x120, data = d1\<rparr>)))
          = signal_named ''kill_switch'' (fst (run (decode s2 \<lparr>sender_id = 0x120, data = d2\<rparr>))))
       \<and> (bit (d1 ! 4) 0 = bit (d2 ! 4) 0 \<longrightarrow>
            signal_named ''throttle_map'' (fst (run (decode s1 \<lparr>sender_id = 0x120, data = d1\<rparr>)))
          = signal_named ''throttle_map'' (fst (run (decode s2 \<lparr>sender_id = 0x120, data = d2\<rparr>))))
       \<and> signal_named ''kill_switch'' (fst (run (decode s1 \<lparr>sender_id = 0x120, data = d1\<rparr>)))
            \<in> {Some (VInt 0), Some (VInt 1)}
       \<and> signal_named ''throttle_map'' (fst (run (decode s1 \<lparr>sender_id = 0x120, data = d1\<rparr>)))
            \<in> {Some (VInt 0), Some (VInt 1)}"
  using decode_0x120_flags [OF assms(1), of s1] decode_0x120_flags [OF assms(2), of s2]
  by simp

theorem flags_mask_independent_witness:
  "signal_named ''kill_switch''
      (fst (run (decode \<lparr>emit_unmapped = False\<rparr>
         \<lparr>sender_id = 0x120, data = [0, 0, 0, 0x10, 0x01, 0, 0, 0]\<rparr>)))
   = signal_named ''kill_switch''
      (fst (run (decode \<lparr>emit_unmapped = True\<rparr>
         \<lparr>sender_id = 0x120, data = [0xFF, 0xFF, 0xFF, 0xFF, 0xFF, 0xFF, 0xFF, 0xFF]\<rparr>)))
   \<and> signal_named ''throttle_map''
      (fst (run (decode \<lparr>emit_unmapped = False\<rparr>
         \<lparr>sender_id = 0x120, data = [0, 0, 0, 0x10, 0x01, 0, 0, 0]\<rparr>)))
   = signal_named ''throttle_map''
      (fst (run (decode \<lparr>emit_unmapped = True\<rparr>
         \<lparr>sender_id = 0x120, data = [0xFF, 0xFF, 0xFF, 0xFF, 0xFF, 0xFF, 0xFF, 0xFF]\<rparr>)))"
  using flags_mask_independent [of "[0, 0, 0, 0x10, 0x01, 0, 0, 0]"
      "[0xFF, 0xFF, 0xFF, 0xFF, 0xFF, 0xFF, 0xFF, 0xFF]"
      "\<lparr>emit_unmapped = False\<rparr>" "\<lparr>emit_unmapped = True\<rparr>"]
  by (simp add: bit_iff_odd)

section \<open>Identifier 0x540: running the body\<close>

lemma unpack_H_slice_Suc0_3:
  "unpack_H (slice (Suc 0) 3 bs) =
     (if 3 \<le> length bs then Inr (256 * uint (bs ! Suc 0) + uint (bs ! 2)) else Inl StructError)"
  using unpack_H_slice_1_3 [of bs] by simp

lemma getitem_0 [simp]:
  "bs \<noteq> [] \<Longrightarrow> getitem bs 0 = Inr (uint (bs ! 0))"
  "getitem [] i = Inl IndexError"
  by (simp_all add: getitem_def)

lemma gen_next_yield [simp]:
  "gen_next (yield i k (Inr v) # rest) = (Yielded (i, k, v), rest)"
  "gen_next (yield i k (Inl e) # rest) = (Raised e, [])"
  by (simp_all add: yield_def)

lemma gen_next_Assert [simp]:
  "gen_next (Assert (Inr b) # rest) = (if b then gen_next rest else (Raised AssertionError, []))"
  by (cases b) simp_all

lemma kickstand_up_bit: "uint (b::8 word) AND 0b00000001 = 1 \<longleftrightarrow> bit b 0"
  by (simp add: map_bit)

lemma kickstand_err_flag: "drop_bit 7 (uint (b::8 word) AND 0b10000000) = 1 \<longleftrightarrow> bit b 7"
  by (simp add: kickstand_err_bit del: drop_bit_and)

lemma decode_0x540_bad_byte0:
  assumes "data msg \<noteq> []" and "data msg ! 0 \<noteq> 0x02"
  shows "run (decode_0x540 self msg) = ([], Some AssertionError)"
    and "gen_next (decode_0x540 self msg) = (Raised AssertionError, [])"
  using assms by (simp_all add: decode_0x540_def uint_eq_2_iff)

lemma decode_0x540_bad_byte5:
  assumes "5 < length (data msg)" and "data msg ! 0 = 0x02" and "data msg ! 5 \<noteq> 0x00"
  shows "run (decode_0x540 self msg) =
    ([(sender_id msg, ''rpm'', VInt (256 * uint (data msg ! 1) + uint (data msg ! 2))),
      (sender_id msg, ''kickstand_up'', VBool (bit (data msg ! 4) 0)),
      (sender_id msg, ''kickstand_err'', VBool (bit (data msg ! 4) 7))],
     Some AssertionError)"
proof -
  have "data msg \<noteq> []"
    using assms(1) by auto
  then show ?thesis
    using assms
    by (simp add: decode_0x540_def uint_eq_0_iff unpack_H_slice_Suc0_3 kickstand_up_bit
        kickstand_err_flag del: drop_bit_and)
qed

lemma nexts_5:
  "nexts 5 g =
     [fst (gen_next g),
      fst (gen_next (snd (gen_next g))),
      fst (gen_next (snd (gen_next (snd (gen_next g))))),
      fst (gen_next (snd (gen_next (snd (gen_next (snd (gen_next g))))))),
      fst (gen_next (snd (gen_next (snd (gen_next (snd (gen_next (snd (gen_next g)))))))))]"
  by (simp add: eval_nat_numeral)

lemma decode_0x540_bad_byte5_nexts:
  assumes "5 < length (data msg)" and "data msg ! 0 = 0x02" and "data msg ! 5 \<noteq> 0x00"
  shows "nexts 5 (decode_0x540 self msg) =
    [Yielded (sender_id msg, ''rpm'', VInt (256 * uint (data msg ! 1) + uint (data msg ! 2))),
     Yielded (sender_id msg, ''kickstand_up'', VBool (bit (data msg ! 4) 0)),
     Yielded (sender_id msg, ''kickstand_err'', VBool (bit (data msg ! 4) 7)),
     Raised AssertionError,
     StopIteration]"
proof -
  have "data msg \<noteq> []"
    using assms(1) by auto
  then show ?thesis
    using assms
    by (simp add: nexts_5 decode_0x540_def uint_eq_0_iff unpack_H_slice_Suc0_3 kickstand_up_bit
        kickstand_err_flag del: drop_bit_and)
qed

lemma decode_0x540_valid:
  assumes "length (data msg) = 8" and "data msg ! 0 = 0x02" and "data msg ! 5 = 0x00"
  shows "take 4 (fst (run (decode_0x540 self msg))) =
    [(sender_id msg, ''rpm'', VInt (256 * uint (data msg ! 1) + uint (data msg ! 2))),
     (sender_id msg, ''kickstand_up'', VBool (bit (data msg ! 4) 0)),
     (sender_id msg, ''kickstand_err'', VBool (bit (data msg ! 4) 7)),
     (sender_id msg, ''coolant_temp'',
        VFloat (float_div (256 * uint (data msg ! 6) + uint (data msg ! 7)) 10))]"
    and "snd (run (decode_0x540 self msg)) = None"
proof -
  have ne: "data msg \<noteq> []"
    using assms(1) by auto
  show "take 4 (fst (run (decode_0x540 self msg))) =
    [(sender_id msg, ''rpm'', VInt (256 * uint (data msg ! 1) + uint (data msg ! 2))),
     (sender_id msg, ''kickstand_up'', VBool (bit (data msg ! 4) 0)),
     (sender_id msg, ''kickstand_err'', VBool (bit (data msg ! 4) 7)),
     (sender_id msg, ''coolant_temp'',
        VFloat (float_div (256 * uint (data msg ! 6) + uint (data msg ! 7)) 10))]"
    using assms ne
    by (simp add: decode_0x540_def unpack_H_slice_Suc0_3 unpack_H_slice_from_6
        kickstand_up_bit kickstand_err_flag run_unmapped del: drop_bit_and)
  show "snd (run (decode_0x540 self msg)) = None"
    using assms ne
    by (simp add: decode_0x540_def unpack_H_slice_Suc0_3 unpack_H_slice_from_6
        kickstand_up_bit kickstand_err_flag run_unmapped del: drop_bit_and)
qed

section \<open>Identifier 0x540: the constant bytes\<close>

text \<open>
  C6: decoding a 0x540 frame whose byte 0 is not 0x02, or whose byte 5 is not 0x00, ends
  with the assertion failure \<open>AssertionError\<close>, which is a different exception from the
  ones a short payload produces (\<open>IndexError\<close>, \<open>StructError\<close>).
\<close>

theorem constant_byte_violation:
  assumes "sender_id msg = 0x540"
    and "(0 < length (data msg) \<and> data msg ! 0 \<noteq> 0x02)
       \<or> (5 < length (data msg) \<and> data msg ! 5 \<noteq> 0x00)"
  shows "snd (run (decode self msg)) = Some AssertionError
     \<and> AssertionError \<noteq> IndexError \<and> AssertionError \<noteq> StructError"
proof (cases "0 < length (data msg) \<and> data msg ! 0 \<noteq> 0x02")
  case True
  then have "data msg \<noteq> []" "data msg ! 0 \<noteq> 0x02"
    by auto
  then show ?thesis
    using assms(1) decode_0x540_bad_byte0(1) [of msg self] by (simp add: decode_def)
next
  case False
  with assms(2) have "5 < length (data msg)" "data msg ! 0 = 0x02" "data msg ! 5 \<noteq> 0x00"
    by auto
  then show ?thesis
    using assms(1) decode_0x540_bad_byte5 [of msg self] by (simp add: decode_def)
qed

theorem constant_byte_violation_witness:
  "snd (run (decode \<lparr>emit_unmapped = False\<rparr>
      \<lparr>sender_id = 0x540, data = [0x03, 0, 0, 0, 0, 0, 0x01, 0x2C]\<rparr>)) = Some AssertionError
   \<and> snd (run (decode \<lparr>emit_unmapped = True\<rparr>
      \<lparr>sender_id = 0x540, data = [0x02, 0, 0, 0, 0, 0x01, 0x01, 0x2C]\<rparr>)) = Some AssertionError"
  using constant_byte_violation [of "\<lparr>sender_id = 0x540, data = [0x03, 0, 0, 0, 0, 0, 0x01, 0x2C]\<rparr>"
      "\<lparr>emit_unmapped = False\<rparr>"]
    constant_byte_violation [of "\<lparr>sender_id = 0x540, data = [0x02, 0, 0, 0, 0, 0x01, 0x01, 0x2C]\<rparr>"
      "\<lparr>emit_unmapped = True\<rparr>"]
  by simp

text \<open>
  C10: for an 8-byte 0x540 frame with byte 0 equal to 0x02 and byte 5 different from 0x00,
  successive requests yield \<open>rpm\<close>, \<open>kickstand_up\<close> and \<open>kickstand_err\<close>, and only the
  fourth request raises the assertion failure for byte 5: a consumer has three signals
  when the exception arrives. Creating the generator checks nothing: \<open>decode\<close> returns
  the suspended body, and the assertions are statements of that body, run by \<open>gen_next\<close>.
\<close>

theorem byte5_violation_after_three_signals:
  assumes "sender_id msg = 0x540" and "length (data msg) = 8"
    and "data msg ! 0 = 0x02" and "data msg ! 5 \<noteq> 0x00"
  shows "nexts 5 (decode self msg) =
      [Yielded (0x540, ''rpm'', VInt (256 * uint (data msg ! 1) + uint (data msg ! 2))),
       Yielded (0x540, ''kickstand_up'', VBool (bit (data msg ! 4) 0)),
       Yielded (0x540, ''kickstand_err'', VBool (bit (data msg ! 4) 7)),
       Raised AssertionError,
       StopIteration]
     \<and> run (decode self msg) =
      ([(0x540, ''rpm'', VInt (256 * uint (data msg ! 1) + uint (data msg ! 2))),
        (0x540, ''kickstand_up'', VBool (bit (data msg ! 4) 0)),
        (0x540, ''kickstand_err'', VBool (bit (data msg ! 4) 7))],
       Some AssertionError)
     \<and> nexts 0 (decode self msg) = []"
  using assms decode_0x540_bad_byte5 [of msg self] decode_0x540_bad_byte5_nexts [of msg self]
  by (simp add: decode_def)

theorem byte5_violation_after_three_signals_witness:
  "nexts 5 (decode \<lparr>emit_unmapped = False\<rparr>
      \<lparr>sender_id = 0x540, data = [0x02, 0x1A, 0x2B, 0, 0x81, 0x07, 0x01, 0x2C]\<rparr>) =
      [Yielded (0x540, ''rpm'', VInt 6699),
       Yielded (0x540, ''kickstand_up'', VBool True),
       Yielded (0x540, ''kickstand_err'', VBool True),
       Raised AssertionError,
       StopIteration]"
  using byte5_violation_after_three_signals
    [of "\<lparr>sender_id = 0x540, data = [0x02, 0x1A, 0x2B, 0, 0x81, 0x07, 0x01, 0x2C]\<rparr>"
      "\<lparr>emit_unmapped = False\<rparr>"]
  by (simp add: bit_iff_odd)

section \<open>Signal names\<close>

lemma run_signal_is_yielded:
  "s \<in> set (fst (run ss)) \<Longrightarrow> Yield (Inr s) \<in> set ss"
  by (induction ss rule: run.induct) auto

lemma yield_Inr:
  "Yield (Inr s) = yield i k r \<Longrightarrow> fst s = i \<and> fst (snd s) = k"
  by (cases r) (auto simp add: yield_def)

lemma unmapped_Inr:
  "Yield (Inr s) = unmapped i cells \<Longrightarrow> fst s = i \<and> fst (snd s) = ''unmapped''"
  by (auto simp add: unmapped_def dest: yield_Inr)

lemma decode_0x120_names:
  "Yield (Inr s) \<in> set (decode_0x120 self msg) \<Longrightarrow> fst (snd s) \<in> set emitted_vocabulary"
  by (auto simp add: decode_0x120_def emitted_vocabulary_def split: if_splits
      dest!: yield_Inr unmapped_Inr)

lemma decode_0x129_names:
  "Yield (Inr s) \<in> set (decode_0x129 self msg) \<Longrightarrow> fst (snd s) \<in> set emitted_vocabulary"
  by (auto simp add: decode_0x129_def emitted_vocabulary_def split: if_splits
      dest!: yield_Inr unmapped_Inr)

lemma decode_0x12A_names:
  "Yield (Inr s) \<in> set (decode_0x12A self msg) \<Longrightarrow> fst (snd s) \<in> set emitted_vocabulary"
  by (auto simp add: decode_0x12A_def emitted_vocabulary_def split: if_splits
      dest!: yield_Inr unmapped_Inr)

lemma decode_0x12B_names:
  "Yield (Inr s) \<in> set (decode_0x12B self msg) \<Longrightarrow> fst (snd s) \<in> set emitted_vocabulary"
  by (auto simp add: decode_0x12B_def emitted_vocabulary_def split: if_splits
      dest!: yield_Inr unmapped_Inr)

lemma decode_0x540_names:
  "Yield (Inr s) \<in> set (decode_0x540 self msg) \<Longrightarrow> fst (snd s) \<in> set emitted_vocabulary"
  by (auto simp add: decode_0x540_def emitted_vocabulary_def split: if_splits
      dest!: yield_Inr unmapped_Inr)

lemma decode_0x12B_valid:
  assumes "length (data msg) = 8"
  shows "take 2 (fst (run (decode_0x12B self msg))) =
    [(sender_id msg, ''tilt?'',
        VInt (signed12 (push_bit 4 (uint (data msg ! 5)) OR hi_nibble (uint (data msg ! 6))))),
     (sender_id msg, ''lean?'',
        VInt (signed12 (push_bit 8 (lo_nibble (uint (data msg ! 6))) OR uint (data msg ! 7))))]"
    and "snd (run (decode_0x12B self msg)) = None"
  using assms by (simp_all add: decode_0x12B_def run_unmapped)

text \<open>
  C1 as stated: every signal name is in the listed vocabulary, which has \<open>tilt\<close> and
  \<open>lean\<close>. It fails on any complete 0x12B frame: the two names carry a question mark.
\<close>

theorem vocabulary_counterexample:
  "fst (run (decode \<lparr>emit_unmapped = False\<rparr>
       \<lparr>sender_id = 0x12B, data = [0, 0, 0, 0, 0, 0, 0, 0]\<rparr>))
     = [(0x12B, ''tilt?'', VInt 0), (0x12B, ''lean?'', VInt 0)]
   \<and> ''tilt?'' \<notin> set spec_vocabulary \<and> ''lean?'' \<notin> set spec_vocabulary"
  by (simp add: decode_def decode_0x12B_def getitem_def signed12_def hi_nibble_def
      lo_nibble_def spec_vocabulary_def)

text \<open>
  C1 (amended): every signal emitted by decode, for every frame and both settings of
  \<open>emit_unmapped\<close>, has a name from the vocabulary in which the two 0x12B names are
  \<open>tilt?\<close> and \<open>lean?\<close>; an 8-byte 0x12B frame emits signals with exactly these two
  names first.
\<close>

theorem emitted_names_in_vocabulary:
  "(\<forall>s \<in> set (fst (run (decode self msg))). fst (snd s) \<in> set emitted_vocabulary)
   \<and> (sender_id msg = 0x12B \<and> length (data msg) = 8 \<longrightarrow>
        map (\<lambda>s. fst (snd s)) (take 2 (fst (run (decode self msg)))) = [''tilt?'', ''lean?''])"
proof -
  have "fst (snd s) \<in> set emitted_vocabulary" if "s \<in> set (fst (run (decode self msg)))" for s
  proof -
    from that have "Yield (Inr s) \<in> set (decode self msg)"
      by (rule run_signal_is_yielded)
    then show ?thesis
      by (auto simp add: decode_def split: if_splits
          dest: decode_0x120_names decode_0x129_names decode_0x12A_names decode_0x12B_names
            decode_0x540_names)
  qed
  moreover have "map (\<lambda>s. fst (snd s)) (take 2 (fst (run (decode self msg)))) = [''tilt?'', ''lean?'']"
    if "sender_id msg = 0x12B" "length (data msg) = 8"
    using that decode_0x12B_valid(1) [of msg self] by (simp add: decode_def)
  ultimately show ?thesis
    by blast
qed

theorem emitted_names_in_vocabulary_witness:
  "fst (snd (0x12B :: int, ''lean?'', VInt (- 1))) \<in> set emitted_vocabulary
   \<and> map (\<lambda>s. fst (snd s)) (take 2 (fst (run (decode \<lparr>emit_unmapped = True\<rparr>
        \<lparr>sender_id = 0x12B, data = [0, 0, 0, 0, 0, 0, 0x0F, 0xFF]\<rparr>)))) = [''tilt?'', ''lean?'']
   \<and> (0x12B, ''lean?'', VInt (- 1)) \<in> set (fst (run (decode \<lparr>emit_unmapped = True\<rparr>
        \<lparr>sender_id = 0x12B, data = [0, 0, 0, 0, 0, 0, 0x0F, 0xFF]\<rparr>)))"
proof -
  let ?msg = "\<lparr>sender_id = 0x12B, data = [0, 0, 0, 0, 0, 0, 0x0F, 0xFF]\<rparr>"
  have m: "(0x12B, ''lean?'', VInt (- 1)) \<in> set (fst (run (decode \<lparr>emit_unmapped = True\<rparr> ?msg)))"
    by (simp add: decode_def decode_0x12B_def getitem_def signed12_def hi_nibble_def
        lo_nibble_def run_unmapped)
  show ?thesis
    using emitted_names_in_vocabulary [of "\<lparr>emit_unmapped = True\<rparr>" ?msg] m
    by auto
qed

section \<open>Payloads shorter than the bytes read\<close>

lemma decode_0x120_error:
  "snd (run (decode_0x120 self msg)) =
     (if bytes_read (emit_unmapped self) 0x120 \<le> length (data msg) then None
      else if length (data msg) < 2 then Some StructError
      else Some IndexError)"
  by (auto simp add: decode_0x120_def bytes_read_def getitem_def unpack_H_slice_0_2
      run_unmapped simp del: drop_bit_and)

lemma decode_0x129_error:
  "snd (run (decode_0x129 self msg)) =
     (if bytes_read (emit_unmapped self) 0x129 \<le> length (data msg) then None
      else Some IndexError)"
  by (auto simp add: decode_0x129_def bytes_read_def getitem_def run_unmapped
      simp del: drop_bit_and length_greater_0_conv)

lemma decode_0x12A_error:
  "snd (run (decode_0x12A self msg)) =
     (if bytes_read (emit_unmapped self) 0x12A \<le> length (data msg) then None
      else Some IndexError)"
  by (auto simp add: decode_0x12A_def bytes_read_def getitem_def run_unmapped
      simp del: drop_bit_and)

lemma decode_0x12B_error:
  "snd (run (decode_0x12B self msg)) =
     (if bytes_read (emit_unmapped self) 0x12B \<le> length (data msg) then None
      else Some IndexError)"
  by (auto simp add: decode_0x12B_def bytes_read_def getitem_def on_values_def run_unmapped
      simp del: drop_bit_and)

lemma decode_0x540_short:
  "length (data msg) < 8 \<Longrightarrow>
     snd (run (decode_0x540 self msg)) \<in> {Some IndexError, Some StructError, Some AssertionError}"
  by (auto simp add: decode_0x540_def getitem_def unpack_H_slice_Suc0_3 unpack_H_slice_from_6
      run_unmapped simp del: drop_bit_and)

text \<open>
  C2 as stated: a payload shorter than the layout of its identifier makes decode fail
  with an error of its own for insufficient length. A two-byte 0x12A frame is decoded
  without any error when \<open>emit_unmapped\<close> is off, and where a short payload does fail
  the exception is whichever the first out-of-range operation raises.
\<close>

theorem short_payload_counterexample:
  "length (data \<lparr>sender_id = 0x12A, data = [0x00, 0x40]\<rparr>) < 8
   \<and> run (decode \<lparr>emit_unmapped = False\<rparr> \<lparr>sender_id = 0x12A, data = [0x00, 0x40]\<rparr>)
       = ([(0x12A, ''requested_throttle_map'', VInt 1)], None)
   \<and> run (decode \<lparr>emit_unmapped = False\<rparr> \<lparr>sender_id = 0x120, data = [0x1A]\<rparr>)
       = ([], Some StructError)
   \<and> run (decode \<lparr>emit_unmapped = False\<rparr> \<lparr>sender_id = 0x129, data = []\<rparr>)
       = ([], Some IndexError)"
  by (simp add: decode_def decode_0x12A_def decode_0x120_def decode_0x129_def getitem_def
      unpack_H_def slice_def)

text \<open>
  C2 (amended): for a known identifier, iterating decode over a payload shorter than the
  bytes the body reads for that identifier and \<open>emit_unmapped\<close> setting
  (\<open>bytes_read\<close>) ends with an exception, possibly after some signals: \<open>IndexError\<close> or
  \<open>StructError\<close>, the generic exceptions of indexing and unpacking, or, for 0x540 only,
  \<open>AssertionError\<close>. For the identifiers other than 0x540 a payload that covers the
  bytes read is decoded without an exception, also when it has fewer than 8 bytes.
\<close>

theorem short_payload_raises:
  assumes "sender_id msg \<in> {0x120, 0x129, 0x12A, 0x12B, 0x540}"
  shows "(length (data msg) < bytes_read (emit_unmapped self) (sender_id msg) \<longrightarrow>
            snd (run (decode self msg)) \<in> {Some IndexError, Some StructError, Some AssertionError}
          \<and> (sender_id msg \<noteq> 0x540 \<longrightarrow>
                snd (run (decode self msg)) \<in> {Some IndexError, Some StructError}))
      \<and> (sender_id msg \<noteq> 0x540
            \<and> bytes_read (emit_unmapped self) (sender_id msg) \<le> length (data msg) \<longrightarrow>
            snd (run (decode self msg)) = None)"
proof -
  consider "sender_id msg = 0x120" | "sender_id msg = 0x129" | "sender_id msg = 0x12A"
    | "sender_id msg = 0x12B" | "sender_id msg = 0x540"
    using assms by auto
  then show ?thesis
  proof cases
    case 1
    then show ?thesis
      using decode_0x120_error [of self msg] by (simp add: decode_def)
  next
    case 2
    then show ?thesis
      using decode_0x129_error [of self msg] by (simp add: decode_def)
  next
    case 3
    then show ?thesis
      using decode_0x12A_error [of self msg] by (simp add: decode_def)
  next
    case 4
    then show ?thesis
      using decode_0x12B_error [of self msg] by (simp add: decode_def)
  next
    case 5
    then show ?thesis
      using decode_0x540_short [of msg self] by (simp add: decode_def bytes_read_def)
  qed
qed

theorem short_payload_raises_witness:
  "snd (run (decode \<lparr>emit_unmapped = True\<rparr> \<lparr>sender_id = 0x12A, data = [0x00, 0x40]\<rparr>))
     \<in> {Some IndexError, Some StructError}
   \<and> snd (run (decode \<lparr>emit_unmapped = False\<rparr> \<lparr>sender_id = 0x12A, data = [0x00, 0x40]\<rparr>))
     = None"
  using short_payload_raises [of "\<lparr>sender_id = 0x12A, data = [0x00, 0x40]\<rparr>"
      "\<lparr>emit_unmapped = True\<rparr>"]
    short_payload_raises [of "\<lparr>sender_id = 0x12A, data = [0x00, 0x40]\<rparr>"
      "\<lparr>emit_unmapped = False\<rparr>"]
  by (simp add: bytes_read_def)

section \<open>The unmapped diagnostic\<close>

lemma length_8_bytes:
  assumes "length (xs :: 'a list) = 8"
  obtains b0 b1 b2 b3 b4 b5 b6 b7 where "xs = [b0, b1, b2, b3, b4, b5, b6, b7]"
  using assms by (auto simp add: length_Suc_conv eval_nat_numeral)

lemma uint_and_255: "uint (b::8 word) AND 255 = uint b"
proof -
  have "(255::int) = mask 8"
    by (simp add: mask_eq_exp_minus_1)
  then have "uint b AND 255 = take_bit 8 (uint b)"
    by (simp only: take_bit_eq_mask)
  also have "\<dots> = uint b"
    using uint_bounded [of b] by (intro take_bit_int_eq_self) simp_all
  finally show ?thesis .
qed

lemma upper_hex_small: "n < 16 \<Longrightarrow> upper_hex n = [hex_digit n]"
  by (simp add: upper_hex.simps)

lemma format_02X_byte:
  assumes "0 \<le> n" and "n < 256"
  shows "format_02X n = [hex_digit (nat n div 16), hex_digit (nat n mod 16)]"
proof (cases "n < 16")
  case True
  then have "nat n < 16"
    using assms by simp
  then show ?thesis
    using assms True by (simp add: format_02X_def upper_hex_small hex_digit_def)
next
  case False
  then have big: "\<not> nat n < 16"
    by simp
  have "nat n div 16 < 16"
    using assms by simp
  then have "upper_hex (nat n) = [hex_digit (nat n div 16), hex_digit (nat n mod 16)]"
    using big by (subst upper_hex.simps) (simp add: upper_hex_small)
  then show ?thesis
    using assms by (simp add: format_02X_def)
qed

lemma hex_digit_upper: "d < 16 \<Longrightarrow> hex_digit d \<in> set ''0123456789ABCDEF''"
  unfolding hex_digit_def by (rule nth_mem) simp

lemma masked_byte_range: "0 \<le> uint (b::8 word) AND m \<and> uint b AND m < 256"
proof -
  have "uint b AND m \<le> uint b"
    by (rule AND_upper1) simp
  moreover have "uint b < 256"
    using uint_bounded [of b] by simp
  ultimately show ?thesis
    by (simp add: and_nonnegative_int_iff)
qed

lemma render_cell_simps:
  "render_cell 0xFF b = ''__''"
  "render_cell 0x00 b = format_02X (uint b)"
  "render_cell 0x10 b = format_02X (uint b AND 239)"
  "render_cell 0x01 b = format_02X (uint b AND 254)"
  "render_cell 0x40 b = format_02X (uint b AND 191)"
  "render_cell 0x81 b = format_02X (uint b AND 126)"
  by (simp_all add: render_cell_def uint_and_255)

lemma unmapped_0x120:
  assumes "emit_unmapped self" and "length (data msg) = 8"
  shows "signal_named ''unmapped'' (fst (run (decode_0x120 self msg)))
     = Some (VStr (render_unmapped (hidden_bits 0x120) (data msg)))"
proof -
  obtain b0 b1 b2 b3 b4 b5 b6 b7 where d: "data msg = [b0, b1, b2, b3, b4, b5, b6, b7]"
    using assms(2) by (rule length_8_bytes)
  show ?thesis
    using assms(1)
    by (simp add: d decode_0x120_def unpack_H_def slice_def getitem_def run_unmapped
        render_unmapped_def hidden_bits_def render_cell_simps del: drop_bit_and)
qed

lemma unmapped_0x129:
  assumes "emit_unmapped self" and "length (data msg) = 8"
  shows "signal_named ''unmapped'' (fst (run (decode_0x129 self msg)))
     = Some (VStr (render_unmapped (hidden_bits 0x129) (data msg)))"
proof -
  obtain b0 b1 b2 b3 b4 b5 b6 b7 where d: "data msg = [b0, b1, b2, b3, b4, b5, b6, b7]"
    using assms(2) by (rule length_8_bytes)
  show ?thesis
    using assms(1)
    by (simp add: d decode_0x129_def getitem_def run_unmapped
        render_unmapped_def hidden_bits_def render_cell_simps del: drop_bit_and)
qed

lemma unmapped_0x12A:
  assumes "emit_unmapped self" and "length (data msg) = 8"
  shows "signal_named ''unmapped'' (fst (run (decode_0x12A self msg)))
     = Some (VStr (render_unmapped (hidden_bits 0x12A) (data msg)))"
proof -
  obtain b0 b1 b2 b3 b4 b5 b6 b7 where d: "data msg = [b0, b1, b2, b3, b4, b5, b6, b7]"
    using assms(2) by (rule length_8_bytes)
  show ?thesis
    using assms(1)
    by (simp add: d decode_0x12A_def getitem_def run_unmapped
        render_unmapped_def hidden_bits_def render_cell_simps del: drop_bit_and)
qed

lemma unmapped_0x12B:
  assumes "emit_unmapped self" and "length (data msg) = 8"
  shows "signal_named ''unmapped'' (fst (run (decode_0x12B self msg)))
     = Some (VStr (render_unmapped (hidden_bits 0x12B) (data msg)))"
proof -
  obtain b0 b1 b2 b3 b4 b5 b6 b7 where d: "data msg = [b0, b1, b2, b3, b4, b5, b6, b7]"
    using assms(2) by (rule length_8_bytes)
  show ?thesis
    using assms(1)
    by (simp add: d decode_0x12B_def getitem_def run_unmapped
        render_unmapped_def hidden_bits_def render_cell_simps del: drop_bit_and)
qed

lemma unmapped_0x540:
  assumes "emit_unmapped self" and "length (data msg) = 8"
    and "data msg ! 0 = 0x02" and "data msg ! 5 = 0x00"
  shows "signal_named ''unmapped'' (fst (run (decode_0x540 self msg)))
     = Some (VStr (render_unmapped (hidden_bits 0x540) (data msg)))"
proof -
  obtain b0 b1 b2 b3 b4 b5 b6 b7 where d: "data msg = [b0, b1, b2, b3, b4, b5, b6, b7]"
    using assms(2) by (rule length_8_bytes)
  show ?thesis
    using assms(1,3,4)
    by (simp add: d decode_0x540_def unpack_H_def slice_def slice_from_def getitem_def
        run_unmapped render_unmapped_def hidden_bits_def render_cell_simps del: drop_bit_and)
qed

text \<open>
  C3 as stated: the placeholder stands exactly for the bytes a named field consumes, and
  a partially consumed byte is never a placeholder. On a 0x120 frame byte 7, which no
  named field reads, is shown as the placeholder; on a 0x129 frame so is byte 0, of
  which the named fields consume only bits 3-7.
\<close>

theorem unmapped_counterexample:
  "signal_named ''unmapped'' (fst (run (decode \<lparr>emit_unmapped = True\<rparr>
       \<lparr>sender_id = 0x120, data = [0x1A, 0x2B, 0x7F, 0xFF, 0xFF, 0xAB, 0xCD, 0xEF]\<rparr>)))
     = Some (VStr ''__ __ __ EF FE AB CD __'')
   \<and> render_unmapped (named_bits 0x120) [0x1A, 0x2B, 0x7F, 0xFF, 0xFF, 0xAB, 0xCD, 0xEF]
     = ''__ __ __ EF FE AB CD EF''
   \<and> signal_named ''unmapped'' (fst (run (decode \<lparr>emit_unmapped = True\<rparr>
       \<lparr>sender_id = 0x129, data = [0x1F, 0x01, 0x02, 0x03, 0x04, 0x05, 0x06, 0x07]\<rparr>)))
     = Some (VStr ''__ 01 02 03 04 05 06 __'')
   \<and> render_unmapped (named_bits 0x129) [0x1F, 0x01, 0x02, 0x03, 0x04, 0x05, 0x06, 0x07]
     = ''07 01 02 03 04 05 06 07''"
  by (simp add: decode_def decode_0x120_def decode_0x129_def unpack_H_def slice_def
      getitem_def run_unmapped render_unmapped_def named_bits_def render_cell_def
      format_02X_def upper_hex.simps hex_digit_def hi_nibble_def del: drop_bit_and)

text \<open>
  C3 (amended): for a complete frame with a known identifier (8 bytes; for 0x540 with
  its two constant bytes), when \<open>emit_unmapped\<close> is true the \<open>unmapped\<close> signal is the
  eight cells of the payload in byte order, joined by single spaces. A cell is the
  placeholder for the bytes a named field consumes entirely and also for byte 7 of 0x120,
  bytes 0 and 7 of 0x129, bytes 0, 1 and 4 of 0x12B and bytes 0 and 5 of 0x540; every
  other cell is two upper-case hex digits of the byte with the bits of the named fields
  cleared (bit 4 of byte 3 and bit 0 of byte 4 of 0x120, bit 6 of byte 1 of 0x12A, bits 0
  and 7 of byte 4 of 0x540).
\<close>

theorem unmapped_rendering:
  assumes "emit_unmapped self" and "length (data msg) = 8"
    and "sender_id msg \<in> {0x120, 0x129, 0x12A, 0x12B, 0x540}"
    and "sender_id msg = 0x540 \<longrightarrow> data msg ! 0 = 0x02 \<and> data msg ! 5 = 0x00"
  shows "signal_named ''unmapped'' (fst (run (decode self msg)))
       = Some (VStr (render_unmapped (hidden_bits (sender_id msg)) (data msg)))
     \<and> hidden_bits 0x120 = (named_bits 0x120)[7 := 0xFF]
     \<and> hidden_bits 0x129 = (named_bits 0x129)[0 := 0xFF, 7 := 0xFF]
     \<and> hidden_bits 0x12A = named_bits 0x12A
     \<and> hidden_bits 0x12B = (named_bits 0x12B)[0 := 0xFF, 1 := 0xFF, 4 := 0xFF]
     \<and> hidden_bits 0x540 = (named_bits 0x540)[0 := 0xFF, 5 := 0xFF]
     \<and> (\<forall>u b. u \<noteq> 0xFF \<longrightarrow>
           render_cell u b =
             [hex_digit (nat (uint b AND (NOT u AND 0xFF)) div 16),
              hex_digit (nat (uint b AND (NOT u AND 0xFF)) mod 16)]
         \<and> set (render_cell u b) \<subseteq> set ''0123456789ABCDEF'')"
proof -
  have s: "signal_named ''unmapped'' (fst (run (decode self msg)))
       = Some (VStr (render_unmapped (hidden_bits (sender_id msg)) (data msg)))"
  proof -
    consider "sender_id msg = 0x120" | "sender_id msg = 0x129" | "sender_id msg = 0x12A"
      | "sender_id msg = 0x12B" | "sender_id msg = 0x540"
      using assms(3) by auto
    then show ?thesis
    proof cases
      case 1
      then show ?thesis
        using unmapped_0x120 [OF assms(1,2)] by (simp add: decode_def)
    next
      case 2
      then show ?thesis
        using unmapped_0x129 [OF assms(1,2)] by (simp add: decode_def)
    next
      case 3
      then show ?thesis
        using unmapped_0x12A [OF assms(1,2)] by (simp add: decode_def)
    next
      case 4
      then show ?thesis
        using unmapped_0x12B [OF assms(1,2)] by (simp add: decode_def)
    next
      case 5
      then show ?thesis
        using unmapped_0x540 [OF assms(1,2)] assms(4) by (simp add: decode_def)
    qed
  qed
  have t: "hidden_bits 0x120 = (named_bits 0x120)[7 := 0xFF]"
    "hidden_bits 0x129 = (named_bits 0x129)[0 := 0xFF, 7 := 0xFF]"
    "hidden_bits 0x12A = named_bits 0x12A"
    "hidden_bits 0x12B = (named_bits 0x12B)[0 := 0xFF, 1 := 0xFF, 4 := 0xFF]"
    "hidden_bits 0x540 = (named_bits 0x540)[0 := 0xFF, 5 := 0xFF]"
    by (simp_all add: hidden_bits_def named_bits_def)
  have c: "render_cell u b =
             [hex_digit (nat (uint b AND (NOT u AND 0xFF)) div 16),
              hex_digit (nat (uint b AND (NOT u AND 0xFF)) mod 16)]
         \<and> set (render_cell u b) \<subseteq> set ''0123456789ABCDEF''" if "u \<noteq> 0xFF" for u b
  proof -
    let ?n = "uint b AND (NOT u AND 0xFF)"
    have r: "0 \<le> ?n" "?n < 256"
      using masked_byte_range [of b "NOT u AND 0xFF"] by simp_all
    then have f: "render_cell u b = [hex_digit (nat ?n div 16), hex_digit (nat ?n mod 16)]"
      using that by (simp add: render_cell_def format_02X_byte)
    have "nat ?n < 16 * 16"
      using r by linarith
    then have "nat ?n div 16 < 16"
      by (rule less_mult_imp_div_less)
    then have "hex_digit (nat ?n div 16) \<in> set ''0123456789ABCDEF''"
      by (rule hex_digit_upper)
    moreover have "hex_digit (nat ?n mod 16) \<in> set ''0123456789ABCDEF''"
      by (rule hex_digit_upper) simp
    ultimately show ?thesis
      unfolding f by simp
  qed
  show ?thesis
    using s t c by blast
qed

theorem unmapped_rendering_witness:
  "signal_named ''unmapped'' (fst (run (decode \<lparr>emit_unmapped = True\<rparr>
       \<lparr>sender_id = 0x540, data = [0x02, 0xFF, 0x7F, 0xFF, 0xFF, 0x00, 0x01, 0x2C]\<rparr>)))
     = Some (VStr ''__ __ __ FF 7E __ __ __'')
   \<and> render_cell 0x81 0xFF = ''7E''"
proof -
  let ?msg = "\<lparr>sender_id = 0x540, data = [0x02, 0xFF, 0x7F, 0xFF, 0xFF, 0x00, 0x01, 0x2C]\<rparr>"
  have r: "render_unmapped (hidden_bits 0x540) (data ?msg) = ''__ __ __ FF 7E __ __ __''"
    "render_cell 0x81 0xFF = ''7E''"
    by (simp_all add: render_unmapped_def hidden_bits_def render_cell_def format_02X_def
        upper_hex.simps hex_digit_def)
  show ?thesis
    using unmapped_rendering [of "\<lparr>emit_unmapped = True\<rparr>" ?msg] r
    by simp
qed

section \<open>Binary64 division as used for the coolant temperature\<close>

lemma bit_length_bounds:
  "0 < n \<Longrightarrow> 2 ^ (bit_length n - 1) \<le> n \<and> n < 2 ^ bit_length n"
proof (induction n rule: bit_length.induct)
  case (1 n)
  show ?case
  proof (cases "n div 2 = 0")
    case True
    with 1(2) have "n = 1" by auto
    then show ?thesis by (simp add: bit_length.simps)
  next
    case False
    then have h: "0 < n div 2" by simp
    have ih: "2 ^ (bit_length (n div 2) - 1) \<le> n div 2 \<and> n div 2 < 2 ^ bit_length (n div 2)"
      using 1(1) 1(2) h by simp
    have pos: "0 < bit_length (n div 2)"
      using h by (subst bit_length.simps) simp
    have bl: "bit_length n = Suc (bit_length (n div 2))"
      using 1(2) by (subst bit_length.simps) simp
    have "(2::nat) ^ bit_length (n div 2) = 2 * 2 ^ (bit_length (n div 2) - 1)"
      using pos by (cases "bit_length (n div 2)") simp_all
    then have "(2::nat) ^ (bit_length n - 1) \<le> 2 * (n div 2)"
      using ih bl by simp
    moreover have "2 * (n div 2) \<le> n" by simp
    moreover have "n < 2 * (n div 2) + 2" by presburger
    moreover have "2 * (n div 2) + 2 \<le> 2 * 2 ^ bit_length (n div 2)"
      using ih by simp
    ultimately show ?thesis
      using bl by simp
  qed
qed

lemma pow2_ratio: "(of_int (2 ^ nat j) :: rat) / of_int (2 ^ nat (- j)) = 2 powi j"
proof (cases "0 \<le> j")
  case True
  then show ?thesis by (simp add: power_int_def)
next
  case False
  then show ?thesis by (simp add: power_int_def field_simps)
qed

lemma bit_length_rat:
  assumes "0 < (p::int)"
  shows "(2::rat) powi (int (bit_length (nat p)) - 1) \<le> of_int p"
    and "(of_int p :: rat) < 2 powi int (bit_length (nat p))"
proof -
  let ?b = "bit_length (nat p)"
  have b: "2 ^ (?b - 1) \<le> nat p" "nat p < 2 ^ ?b"
    using assms bit_length_bounds [of "nat p"] by simp_all
  have pos: "0 < ?b"
    using assms by (subst bit_length.simps) simp
  have p: "(of_nat (nat p) :: rat) = of_int p"
    using assms by (intro of_nat_nat) simp
  have "(of_nat (2 ^ (?b - 1)) :: rat) \<le> of_nat (nat p)"
    using b(1) by (simp only: of_nat_le_iff)
  then have lo: "(2::rat) ^ (?b - 1) \<le> of_int p"
    unfolding p by simp
  have "int ?b - 1 = int (?b - 1)"
    using pos by simp
  then have "(2::rat) powi (int ?b - 1) = 2 ^ (?b - 1)"
    by (simp only: power_int_of_nat)
  then show "(2::rat) powi (int ?b - 1) \<le> of_int p"
    using lo by simp
  have "(of_nat (nat p) :: rat) < of_nat (2 ^ ?b)"
    using b(2) by (simp only: of_nat_less_iff)
  then have "(of_int p :: rat) < 2 ^ ?b"
    unfolding p by simp
  then show "(of_int p :: rat) < 2 powi int ?b"
    by simp
qed

lemma round_half_even_error:
  assumes "0 < q"
  shows "\<bar>2 * (round_half_even p q * q - p)\<bar> \<le> q"
proof -
  define f where "f = p div q"
  define r where "r = p mod q"
  have p: "p = f * q + r"
    by (simp add: f_def r_def)
  have r: "0 \<le> r" "r < q"
    using assms by (simp_all add: r_def)
  have m: "round_half_even p q = f \<and> 2 * r \<le> q \<or> round_half_even p q = f + 1 \<and> q \<le> 2 * r"
    by (auto simp add: round_half_even_def Let_def f_def [symmetric] r_def [symmetric])
  then show ?thesis
  proof
    assume a: "round_half_even p q = f \<and> 2 * r \<le> q"
    then have "round_half_even p q * q - p = - r"
      using p by simp
    then show ?thesis
      using a r by simp
  next
    assume a: "round_half_even p q = f + 1 \<and> q \<le> 2 * r"
    then have "round_half_even p q * q - p = q - r"
      using p by (simp add: algebra_simps)
    then show ?thesis
      using a r by simp
  qed
qed

lemma round_half_even_range:
  assumes "0 < q" and "l * q \<le> p" and "p < u * q"
  shows "l \<le> round_half_even p q" and "round_half_even p q \<le> u"
proof -
  have "(l * q) div q \<le> p div q"
    using assms(1,2) by (intro zdiv_mono1)
  then have lo: "l \<le> p div q"
    using assms(1) by simp
  have "p div q * q + p mod q = p"
    by simp
  moreover have "0 \<le> p mod q"
    using assms(1) by simp
  ultimately have "p div q * q \<le> p"
    by linarith
  then have "p div q * q < u * q"
    using assms(3) by linarith
  then have hi: "p div q < u"
    using assms(1) by (simp add: mult_less_cancel_right)
  have "round_half_even p q = p div q \<or> round_half_even p q = p div q + 1"
    by (auto simp add: round_half_even_def Let_def)
  then show "l \<le> round_half_even p q" and "round_half_even p q \<le> u"
    using lo hi by auto
qed

lemma pow2_add: "(2::rat) powi a * 2 powi b = 2 powi (a + b)"
  by (simp add: power_int_add)

lemma float_exponent:
  assumes "0 < p" and "0 < q"
  defines "k \<equiv> int (bit_length (nat p)) - int (bit_length (nat q))"
  defines "e \<equiv> (if p * 2 ^ nat (- k) < q * 2 ^ nat k then k - 1 else k)"
  shows "(2::rat) powi e \<le> of_int p / of_int q" and "(of_int p / of_int q :: rat) < 2 powi (e + 1)"
proof -
  let ?x = "of_int p / of_int q :: rat"
  let ?bp = "int (bit_length (nat p))"
  let ?bq = "int (bit_length (nat q))"
  have rq: "(0::rat) < of_int q" and rp: "(0::rat) < of_int p"
    using assms by simp_all
  have up: "?x < 2 powi (k + 1)"
  proof -
    have "(of_int p :: rat) < 2 powi ?bp"
      using assms(1) by (rule bit_length_rat(2))
    also have "\<dots> = 2 powi (k + 1) * 2 powi (?bq - 1)"
    proof -
      have "k + 1 + (?bq - 1) = ?bp"
        by (simp add: k_def)
      then show ?thesis
        by (simp only: pow2_add)
    qed
    also have "\<dots> \<le> 2 powi (k + 1) * of_int q"
      using bit_length_rat(1) [OF assms(2)] by (intro mult_left_mono) simp_all
    finally show ?thesis
      using rq by (simp add: pos_divide_less_eq)
  qed
  have lo: "2 powi (k - 1) \<le> ?x"
  proof -
    have "(2::rat) powi (k - 1) * of_int q \<le> 2 powi (k - 1) * 2 powi ?bq"
      using bit_length_rat(2) [OF assms(2)] by (intro mult_left_mono) simp_all
    also have "\<dots> = 2 powi (?bp - 1)"
    proof -
      have "k - 1 + ?bq = ?bp - 1"
        by (simp add: k_def)
      then show ?thesis
        by (simp only: pow2_add)
    qed
    also have "\<dots> \<le> of_int p"
      using assms(1) by (rule bit_length_rat(1))
    finally show ?thesis
      using rq by (simp add: pos_le_divide_eq)
  qed
  have test: "p * 2 ^ nat (- k) < q * 2 ^ nat k \<longleftrightarrow> ?x < 2 powi k"
  proof -
    have "p * 2 ^ nat (- k) < q * 2 ^ nat k
        \<longleftrightarrow> (of_int (p * 2 ^ nat (- k)) :: rat) < of_int (q * 2 ^ nat k)"
      by (simp only: of_int_less_iff)
    also have "\<dots> \<longleftrightarrow> (of_int p :: rat) * of_int (2 ^ nat (- k)) < of_int q * of_int (2 ^ nat k)"
      by simp
    also have "\<dots> \<longleftrightarrow> ?x < of_int (2 ^ nat k) / of_int (2 ^ nat (- k))"
      using rq by (simp add: field_simps)
    also have "\<dots> \<longleftrightarrow> ?x < 2 powi k"
      by (simp only: pow2_ratio)
    finally show ?thesis .
  qed
  show "(2::rat) powi e \<le> ?x"
    using lo test by (simp add: e_def)
  show "?x < 2 powi (e + 1)"
    using up test by (simp add: e_def)
qed


lemma float_div_rounds:
  assumes "0 < p" and "0 < q"
  shows "\<exists>m e. float_div p q = Double m e \<and> 2 ^ 52 \<le> m \<and> m < 2 ^ 53
           \<and> \<bar>of_int m * 2 powi e - (of_int p / of_int q :: rat)\<bar> \<le> 2 powi e / 2"
proof -
  define k where "k = int (bit_length (nat p)) - int (bit_length (nat q))"
  define e where "e = (if p * 2 ^ nat (- k) < q * 2 ^ nat k then k - 1 else k)"
  define P where "P = p * 2 ^ nat (52 - e)"
  define Q where "Q = q * 2 ^ nat (e - 52)"
  define M where "M = round_half_even P Q"
  let ?x = "of_int p / of_int q :: rat"
  have rq: "(0::rat) < of_int q"
    using assms by simp
  have Qpos: "0 < Q"
    using assms by (simp add: Q_def)
  have rQ: "(0::rat) < of_int Q"
    using Qpos by simp
  have ex: "(2::rat) powi e \<le> ?x" "?x < 2 powi (e + 1)"
    unfolding e_def k_def using assms by (rule float_exponent)+
  have ratio: "(of_int P :: rat) / of_int Q = ?x * 2 powi (52 - e)"
  proof -
    have "(of_int P :: rat) / of_int Q
        = ?x * (of_int (2 ^ nat (52 - e)) / of_int (2 ^ nat (- (52 - e))))"
      by (simp add: P_def Q_def)
    then show ?thesis
      by (simp only: pow2_ratio)
  qed
  have s52: "(2::rat) powi e * 2 powi (52 - e) = 2 ^ 52"
    by (simp only: pow2_add) simp
  have s53: "(2::rat) powi (e + 1) * 2 powi (52 - e) = 2 ^ 53"
    by (simp only: pow2_add) simp
  have ppos: "(0::rat) < 2 powi (52 - e)"
    by simp
  have "(2::rat) ^ 52 \<le> of_int P / of_int Q"
    unfolding ratio s52 [symmetric] using ex(1) ppos by (intro mult_right_mono) simp_all
  then have "(2::rat) ^ 52 * of_int Q \<le> of_int P"
    using rQ by (simp add: pos_le_divide_eq)
  then have "(of_int (2 ^ 52 * Q) :: rat) \<le> of_int P"
    by simp
  then have lo: "2 ^ 52 * Q \<le> P"
    by (simp only: of_int_le_iff)
  have "(of_int P :: rat) / of_int Q < 2 ^ 53"
    unfolding ratio s53 [symmetric] using ex(2) ppos by (intro mult_strict_right_mono)
  then have "(of_int P :: rat) < 2 ^ 53 * of_int Q"
    using rQ by (simp add: pos_divide_less_eq)
  then have "(of_int P :: rat) < of_int (2 ^ 53 * Q)"
    by simp
  then have hi: "P < 2 ^ 53 * Q"
    by (simp only: of_int_less_iff)
  have M: "2 ^ 52 \<le> M" "M \<le> 2 ^ 53"
    using round_half_even_range [OF Qpos lo hi] by (simp_all add: M_def)
  have "\<bar>2 * (M * Q - P)\<bar> \<le> Q"
    unfolding M_def using Qpos by (rule round_half_even_error)
  then have "(of_int \<bar>2 * (M * Q - P)\<bar> :: rat) \<le> of_int Q"
    by (simp only: of_int_le_iff)
  then have "\<bar>2 * (of_int M * of_int Q - of_int P)\<bar> \<le> (of_int Q :: rat)"
    by simp
  then have "\<bar>2::rat\<bar> * \<bar>of_int M * of_int Q - of_int P\<bar> \<le> (of_int Q :: rat)"
    by (simp only: abs_mult)
  then have "\<bar>of_int M * of_int Q - of_int P\<bar> \<le> (of_int Q :: rat) / 2"
    by simp
  then have "\<bar>of_int M * of_int Q - of_int P\<bar> / of_int Q \<le> ((of_int Q :: rat) / 2) / of_int Q"
    using rQ by (intro divide_right_mono) simp_all
  moreover have "\<bar>of_int M * of_int Q - of_int P\<bar> / (of_int Q :: rat)
      = \<bar>of_int M - of_int P / of_int Q\<bar>"
  proof -
    have "\<bar>of_int M * of_int Q - of_int P\<bar> / (of_int Q :: rat)
        = \<bar>(of_int M * of_int Q - of_int P) / of_int Q\<bar>"
      using rQ by (simp add: abs_divide)
    also have "(of_int M * of_int Q - of_int P) / (of_int Q :: rat) = of_int M - of_int P / of_int Q"
      using rQ by (simp add: field_simps)
    finally show ?thesis .
  qed
  ultimately have half: "\<bar>of_int M - ?x * 2 powi (52 - e)\<bar> \<le> (1 / 2 :: rat)"
    using rQ by (simp add: ratio)
  have inv: "(2::rat) powi (52 - e) * 2 powi (e - 52) = 1"
    by (simp only: pow2_add) simp
  have err: "\<bar>of_int M * 2 powi (e - 52) - ?x\<bar> \<le> 2 powi (e - 52) / 2"
  proof -
    have "of_int M * 2 powi (e - 52) - ?x = (of_int M - ?x * 2 powi (52 - e)) * 2 powi (e - 52)"
      using inv by (simp add: algebra_simps)
    then have "\<bar>of_int M * 2 powi (e - 52) - ?x\<bar>
        = \<bar>of_int M - ?x * 2 powi (52 - e)\<bar> * 2 powi (e - 52)"
      by (simp add: abs_mult)
    also have "\<dots> \<le> (1 / 2) * 2 powi (e - 52)"
      using half by (intro mult_right_mono) simp_all
    finally show ?thesis
      by simp
  qed
  have fd: "float_div p q = (if M = 2 ^ 53 then Double (2 ^ 52) (e - 51) else Double M (e - 52))"
  proof -
    have "p \<noteq> 0"
      using assms(1) by simp
    then show ?thesis
      unfolding float_div_def Let_def M_def P_def Q_def e_def k_def
      by (simp only: if_False)
  qed
  show ?thesis
  proof (cases "M = 2 ^ 53")
    case True
    have step: "(2::rat) powi (e - 51) = 2 * 2 powi (e - 52)"
    proof -
      have "(2::rat) powi 1 * 2 powi (e - 52) = 2 powi (e - 51)"
        by (simp only: pow2_add) simp
      then show ?thesis
        by simp
    qed
    have "of_int (2 ^ 52) * (2::rat) powi (e - 51) = of_int M * 2 powi (e - 52)"
      using True by (simp add: step)
    then have "\<bar>of_int (2 ^ 52) * 2 powi (e - 51) - ?x\<bar> \<le> 2 powi (e - 52) / 2"
      using err by simp
    also have "\<dots> \<le> (2::rat) powi (e - 51) / 2"
      by (simp add: step)
    finally have b: "\<bar>of_int (2 ^ 52) * 2 powi (e - 51) - ?x\<bar> \<le> 2 powi (e - 51) / 2" .
    have f: "float_div p q = Double (2 ^ 52) (e - 51)"
      using True fd by (simp only: simp_thms if_True)
    have r: "(2::int) ^ 52 \<le> 2 ^ 52" "(2::int) ^ 52 < 2 ^ 53"
      by simp_all
    show ?thesis
      using f r b by blast
  next
    case False
    then have r: "M < 2 ^ 53"
      using M(2) by linarith
    have f: "float_div p q = Double M (e - 52)"
      using False fd by (simp only: simp_thms if_False)
    show ?thesis
      using f r M(1) err by blast
  qed
qed

lemma double_val_powi: "double_val (Double m e) = of_int m * 2 powi e"
proof (cases "0 \<le> e")
  case True
  then show ?thesis by (simp add: double_val_def power_int_def)
next
  case False
  then show ?thesis by (simp add: double_val_def power_int_def field_simps)
qed

lemma float_div_300_10: "float_div 300 10 = Double 8444249301319680 (- 48)"
  by (simp add: float_div_def round_half_even_def bit_length.simps)

section \<open>Identifier 0x540: the coolant temperature\<close>

text \<open>
  C9: for every valid 8-byte 0x540 frame (byte 0 equal to 0x02, byte 5 equal to 0x00) the
  \<open>coolant_temp\<close> signal is the big-endian unsigned 16-bit value \<open>n\<close> of bytes 6-7
  divided by 10.0 in binary64: the float \<open>float_div n 10\<close>, which for \<open>n > 0\<close> has a
  normalised 53-bit significand and lies within half a unit in the last place of the
  exact quotient \<open>n / 10\<close>; bytes 0x01, 0x2C give exactly 30.
\<close>

theorem coolant_temp_value:
  assumes "sender_id msg = 0x540" and "length (data msg) = 8"
    and "data msg ! 0 = 0x02" and "data msg ! 5 = 0x00"
    and "n = 256 * uint (data msg ! 6) + uint (data msg ! 7)"
  shows "signal_named ''coolant_temp'' (fst (run (decode self msg))) = Some (VFloat (float_div n 10))
     \<and> (0 < n \<longrightarrow> (\<exists>m e. float_div n 10 = Double m e \<and> 2 ^ 52 \<le> m \<and> m < 2 ^ 53
            \<and> \<bar>double_val (Double m e) - of_int n / 10\<bar> \<le> double_val (Double 1 e) / 2))
     \<and> (n = 0 \<longrightarrow> double_val (float_div n 10) = 0)
     \<and> (data msg ! 6 = 0x01 \<and> data msg ! 7 = 0x2C \<longrightarrow> double_val (float_div n 10) = 30)"
proof -
  have t: "take 4 (fst (run (decode self msg))) =
    [(0x540, ''rpm'', VInt (256 * uint (data msg ! 1) + uint (data msg ! 2))),
     (0x540, ''kickstand_up'', VBool (bit (data msg ! 4) 0)),
     (0x540, ''kickstand_err'', VBool (bit (data msg ! 4) 7)),
     (0x540, ''coolant_temp'', VFloat (float_div n 10))]"
    using assms decode_0x540_valid(1) [of msg self] by (simp add: decode_def)
  have s: "signal_named ''coolant_temp'' (fst (run (decode self msg))) = Some (VFloat (float_div n 10))"
    by (rule signal_named_take [of _ 4]) (simp only: t, simp)
  have r: "\<exists>m e. float_div n 10 = Double m e \<and> 2 ^ 52 \<le> m \<and> m < 2 ^ 53
            \<and> \<bar>double_val (Double m e) - of_int n / 10\<bar> \<le> double_val (Double 1 e) / 2"
    if pos: "0 < n"
  proof -
    obtain m e where "float_div n 10 = Double m e" "2 ^ 52 \<le> m" "m < 2 ^ 53"
      "\<bar>of_int m * 2 powi e - (of_int n / of_int 10 :: rat)\<bar> \<le> 2 powi e / 2"
      using float_div_rounds [OF pos, of 10] by auto
    then show ?thesis
      by (auto simp add: double_val_powi)
  qed
  have z: "double_val (float_div n 10) = 0" if "n = 0"
    using that by (simp add: float_div_def double_val_def)
  have x: "double_val (float_div n 10) = 30" if "data msg ! 6 = 0x01 \<and> data msg ! 7 = 0x2C"
  proof -
    have "n = 300"
      using that assms(5) by simp
    then show ?thesis
      by (simp add: float_div_300_10 double_val_def)
  qed
  show ?thesis
    using s r z x by blast
qed

theorem coolant_temp_value_witness:
  "signal_named ''coolant_temp'' (fst (run (decode \<lparr>emit_unmapped = False\<rparr>
       \<lparr>sender_id = 0x540, data = [0x02, 0x1A, 0x2B, 0x00, 0x81, 0x00, 0x01, 0x2C]\<rparr>)))
     = Some (VFloat (Double 8444249301319680 (- 48)))
   \<and> double_val (Double 8444249301319680 (- 48)) = 30"
  using coolant_temp_value
    [of "\<lparr>sender_id = 0x540, data = [0x02, 0x1A, 0x2B, 0x00, 0x81, 0x00, 0x01, 0x2C]\<rparr>" 300
      "\<lparr>emit_unmapped = False\<rparr>"]
  by (simp add: float_div_300_10 double_val_def)

end
